theory Spec2Isabelle
  imports Complex_Main "HOL-Library.Char_ord"
begin

section \<open>The Online Boutique load-test user (online\_boutique\_locust.py)\<close>

text \<open>
  The source is one Locust user class, \<open>OnlineBoutiqueUser\<close>. Its instance attributes
  \<open>product_ids\<close> and \<open>cart_items\<close> are the session state; its six task methods are the
  handlers. Everything a handler does beyond changing the session is recorded, in
  program order, in a trace of events: the requests it hands to the HTTP client, the
  \<open>resp.success()\<close> and \<open>resp.failure(...)\<close> marks, and its writes to the session.
  What the code cannot know beforehand (the server's responses and the output of the
  random generator) is a parameter of the handler. A handler that reads \<open>resp.ok\<close> may
  be left by an exception; its result says so, next to the session and the trace it
  leaves behind.
\<close>

subsection \<open>Session state, responses, requests\<close>

type_synonym cart_line = "string \<times> int"

record session =
  product_ids :: "string list"
  cart_items :: "cart_line list"

text \<open>
  The fields of a response that the source reads: \<open>resp.ok\<close>, \<open>resp.status_code\<close> and
  \<open>resp.text\<close> (which the source guards with \<open>or ""\<close>, so it may be absent).
  \<open>resp.ok\<close> is a property, and reading it does not always give a value. On a response
  from the server it is \<open>False\<close> for an error status and \<open>True\<close> otherwise. When the
  request failed in the transport (connection refused, timeout) the client hands back a
  response with status 0 that carries the exception, and reading \<open>resp.ok\<close> raises it:
  that is \<open>Inl\<close>.
\<close>

datatype exn = TransportError

record response =
  ok :: "exn + bool"
  status_code :: int
  resp_text :: "string option"

datatype http_method = GET | POST

datatype form_value = StrV string | IntV int

record request =
  r_method :: http_method
  r_path :: string
  r_name :: string
  r_data :: "(string \<times> form_value) list"
  r_catch :: bool

datatype event =
    Request request
  | Success string
  | Failure string string
  | ProductsSet "string list"
  | CartAppend cart_line
  | CartClear
  | Raised exn

fun is_request :: "event \<Rightarrow> bool" where
  "is_request (Request r) = True"
| "is_request e = False"

fun is_failure :: "event \<Rightarrow> bool" where
  "is_failure (Failure n m) = True"
| "is_failure e = False"

definition requests :: "event list \<Rightarrow> event list" where
  "requests evs = filter is_request evs"

definition failures :: "event list \<Rightarrow> event list" where
  "failures evs = filter is_failure evs"

text \<open>
  What a handler leaves behind: the session, the trace, and the exception that left it,
  if one did. \<open>returned\<close> is the result of a handler that cannot raise.
\<close>

record result =
  sess :: session
  trace :: "event list"
  raised :: "exn option"

definition returned :: "session \<times> event list \<Rightarrow> result" where
  "returned p = \<lparr>sess = fst p, trace = snd p, raised = None\<rparr>"

subsection \<open>Python's \<open>str\<close> on an integer, for the failure messages\<close>

fun digits :: "nat \<Rightarrow> string" where
  "digits n =
     (if n < 10 then [''0123456789'' ! n]
      else digits (n div 10) @ [''0123456789'' ! (n mod 10)])"

declare digits.simps [simp del]

definition str_int :: "int \<Rightarrow> string" where
  "str_int i = (if i < 0 then CHR ''-'' # digits (nat (- i)) else digits (nat i))"

subsection \<open>The random module\<close>

text \<open>
  \<open>random.choice(seq)\<close> is \<open>seq[randbelow(len(seq))]\<close> and \<open>random.randint(a, b)\<close> is
  \<open>a + randbelow(b - a + 1)\<close>. The generator's output is the parameter \<open>g\<close>; \<open>randbelow\<close>
  brings it below its bound. \<open>random.choice\<close> raises IndexError on an empty sequence;
  both call sites of the source pass a non-empty one (a literal, and a list just tested
  to be non-empty).
\<close>

definition randbelow :: "nat \<Rightarrow> nat \<Rightarrow> nat" where
  "randbelow n g = g mod n"

definition choice :: "nat \<Rightarrow> 'a list \<Rightarrow> 'a" where
  "choice g xs = xs ! randbelow (length xs) g"

definition randint :: "int \<Rightarrow> int \<Rightarrow> nat \<Rightarrow> int" where
  "randint a b g = a + int (randbelow (nat (b - a + 1)) g)"

subsection \<open>\<open>PRODUCT_HREF_RE\<close> and \<open>findall\<close>\<close>

text \<open>
  The pattern is \<open>/product/([A-Za-z0-9\-]+)\<close>: the literal prefix, then one or more
  characters of the class, as many as there are (the quantifier is greedy and nothing
  follows it). \<open>match_here\<close> matches the pattern at the start of its argument and returns
  group 1. \<open>findall\<close> scans from left to right, and after a match goes on behind it
  (matches do not overlap).
\<close>

definition is_id_char :: "char \<Rightarrow> bool" where
  "is_id_char c =
     ((CHR ''A'' \<le> c \<and> c \<le> CHR ''Z'') \<or> (CHR ''a'' \<le> c \<and> c \<le> CHR ''z'') \<or>
      (CHR ''0'' \<le> c \<and> c \<le> CHR ''9'') \<or> c = CHR ''-'')"

fun strip_prefix :: "string \<Rightarrow> string \<Rightarrow> string option" where
  "strip_prefix [] s = Some s"
| "strip_prefix (p # ps) [] = None"
| "strip_prefix (p # ps) (c # cs) = (if p = c then strip_prefix ps cs else None)"

definition match_here :: "string \<Rightarrow> string option" where
  "match_here s =
     (case strip_prefix ''/product/'' s of
        None \<Rightarrow> None
      | Some rest \<Rightarrow>
          (let ident = takeWhile is_id_char rest
           in if ident = [] then None else Some ident))"

fun findall :: "string \<Rightarrow> string list" where
  "findall [] = []"
| "findall (c # cs) =
     (case match_here (c # cs) of
        Some ident \<Rightarrow> ident # findall (drop (length ''/product/'' + length ident) (c # cs))
      | None \<Rightarrow> findall cs)"

subsection \<open>The class constants, \<open>on_start\<close> and the helpers\<close>

definition CURRENCIES :: "string list" where
  "CURRENCIES = [''USD'', ''EUR'', ''JPY'', ''GBP'', ''CAD'', ''AUD'']"

definition index_request :: "bool \<Rightarrow> request" where
  "index_request c =
     \<lparr>r_method = GET, r_path = ''/'', r_name = ''index'', r_data = [], r_catch = c\<rparr>"

text \<open>
  \<open>_load_products\<close>; \<open>resp\<close> is the response to its \<open>GET /\<close>. When reading \<open>resp.ok\<close>
  raises, the exception leaves the \<open>with\<close> block before any mark is made, and the
  context manager lets it pass.
\<close>

definition load_products :: "response \<Rightarrow> session \<Rightarrow> result" where
  "load_products resp s =
     (case ok resp of
        Inl e \<Rightarrow> \<lparr>sess = s, trace = [Request (index_request True)], raised = Some e\<rparr>
      | Inr b \<Rightarrow>
          if \<not> b then
            \<lparr>sess = s,
             trace = [Request (index_request True),
                      Failure ''index'' (''Index failed with '' @ str_int (status_code resp))],
             raised = None\<rparr>
          else
            (let html = (case resp_text resp of None \<Rightarrow> [] | Some t \<Rightarrow> t);
                 s' = s\<lparr>product_ids := findall html\<rparr>
             in if product_ids s' = [] then
                  \<lparr>sess = s',
                   trace = [Request (index_request True), ProductsSet (product_ids s'),
                            Success ''index''],
                   raised = None\<rparr>
                else
                  \<lparr>sess = s',
                   trace = [Request (index_request True), ProductsSet (product_ids s'),
                            Success ''index''],
                   raised = None\<rparr>))"

definition on_start :: "response \<Rightarrow> result" where
  "on_start resp = load_products resp \<lparr>product_ids = [], cart_items = []\<rparr>"

text \<open>
  \<open>_choose_product\<close>; \<open>idx\<close> is the response to the \<open>GET /\<close> of the refresh, if it is
  made, and \<open>g\<close> the generator output that \<open>random.choice\<close> consumes. It returns the
  identifier (\<open>Inr\<close>), or is left by the exception of the refresh (\<open>Inl\<close>).
\<close>

definition choose_product ::
  "response \<Rightarrow> nat \<Rightarrow> session \<Rightarrow> (exn + string) \<times> session \<times> event list" where
  "choose_product idx g s =
     (let r = (if product_ids s = [] then load_products idx s else returned (s, []))
      in case raised r of
           Some e \<Rightarrow> (Inl e, sess r, trace r)
         | None \<Rightarrow>
             if product_ids (sess r) = [] then (Inr [], sess r, trace r)
             else (Inr (choice g (product_ids (sess r))), sess r, trace r))"

subsection \<open>The tasks\<close>

definition index :: "session \<Rightarrow> session \<times> event list" where
  "index s = (s, [Request (index_request False)])"

definition set_currency :: "nat \<Rightarrow> session \<Rightarrow> session \<times> event list" where
  "set_currency g s =
     (let currency = choice g CURRENCIES
      in (s, [Request \<lparr>r_method = POST, r_path = ''/setCurrency'', r_name = ''setCurrency'',
                       r_data = [(''currency_code'', StrV currency)], r_catch = False\<rparr>]))"

definition product_request :: "string \<Rightarrow> request" where
  "product_request pid =
     \<lparr>r_method = GET, r_path = ''/product/'' @ pid, r_name = ''product'', r_data = [],
      r_catch = False\<rparr>"

definition browse_product :: "response \<Rightarrow> nat \<Rightarrow> session \<Rightarrow> result" where
  "browse_product idx g s =
     (case choose_product idx g s of
        (Inl e, s1, evs) \<Rightarrow> \<lparr>sess = s1, trace = evs, raised = Some e\<rparr>
      | (Inr pid, s1, evs) \<Rightarrow>
          if pid = [] then \<lparr>sess = s1, trace = evs, raised = None\<rparr>
          else \<lparr>sess = s1, trace = evs @ [Request (product_request pid)], raised = None\<rparr>)"

definition cart_add_request :: "string \<Rightarrow> int \<Rightarrow> request" where
  "cart_add_request pid qty =
     \<lparr>r_method = POST, r_path = ''/cart'', r_name = ''cart:add'',
      r_data = [(''product_id'', StrV pid), (''quantity'', IntV qty)], r_catch = False\<rparr>"

text \<open>
  \<open>add_to_cart\<close>; \<open>g\<close> is consumed by \<open>random.choice\<close>, \<open>h\<close> by \<open>random.randint\<close>. The
  response to \<open>POST /cart\<close> is not read by the source.
\<close>

definition add_to_cart :: "response \<Rightarrow> nat \<Rightarrow> nat \<Rightarrow> session \<Rightarrow> result" where
  "add_to_cart idx g h s =
     (case choose_product idx g s of
        (Inl e, s1, evs) \<Rightarrow> \<lparr>sess = s1, trace = evs, raised = Some e\<rparr>
      | (Inr pid, s1, evs) \<Rightarrow>
          if pid = [] then \<lparr>sess = s1, trace = evs, raised = None\<rparr>
          else
            (let qty = randint 1 3 h;
                 s2 = s1\<lparr>cart_items := cart_items s1 @ [(pid, qty)]\<rparr>
             in \<lparr>sess = s2,
                 trace = evs @ [CartAppend (pid, qty), Request (cart_add_request pid qty)],
                 raised = None\<rparr>))"

definition view_cart :: "session \<Rightarrow> session \<times> event list" where
  "view_cart s =
     (s, [Request \<lparr>r_method = GET, r_path = ''/cart'', r_name = ''cart:view'', r_data = [],
                   r_catch = False\<rparr>])"

definition payload :: "(string \<times> form_value) list" where
  "payload =
     [(''email'', StrV ''user@example.com''),
      (''street_address'', StrV ''1600 Amphitheatre Parkway''),
      (''zip_code'', StrV ''94043''),
      (''city'', StrV ''Mountain View''),
      (''state'', StrV ''CA''),
      (''country'', StrV ''USA''),
      (''credit_card_number'', StrV ''4432-8015-6152-0454''),
      (''credit_card_expiration_month'', StrV ''12''),
      (''credit_card_expiration_year'', StrV ''2027''),
      (''credit_card_cvv'', StrV ''123'')]"

definition checkout_request :: request where
  "checkout_request =
     \<lparr>r_method = POST, r_path = ''/cart/checkout'', r_name = ''cart:checkout'',
      r_data = payload, r_catch = True\<rparr>"

text \<open>
  \<open>checkout\<close>; \<open>resp\<close> is the response to its \<open>POST /cart/checkout\<close>. As in
  \<open>_load_products\<close>, an exception from \<open>resp.ok\<close> leaves the handler before any mark.
\<close>

definition checkout :: "response \<Rightarrow> session \<Rightarrow> result" where
  "checkout resp s =
     (if cart_items s = [] then \<lparr>sess = s, trace = [], raised = None\<rparr>
      else
        (case ok resp of
           Inl e \<Rightarrow> \<lparr>sess = s, trace = [Request checkout_request], raised = Some e\<rparr>
         | Inr b \<Rightarrow>
             if b then
               \<lparr>sess = s\<lparr>cart_items := []\<rparr>,
                trace = [Request checkout_request, Success ''cart:checkout'', CartClear],
                raised = None\<rparr>
             else
               \<lparr>sess = s,
                trace = [Request checkout_request,
                         Failure ''cart:checkout''
                           (''Checkout failed with '' @ str_int (status_code resp))],
                raised = None\<rparr>))"

subsection \<open>A session: \<open>on_start\<close>, then one task per cycle\<close>

datatype action = Index | SetCurrency | BrowseProduct | AddToCart | ViewCart | Checkout

text \<open>
  What one cycle takes from outside: the task the runner picked, the response to the
  \<open>GET /\<close> of a catalogue refresh, the response to the task's own request, and the two
  generator outputs.
\<close>

record cycle =
  chosen :: action
  index_resp :: response
  main_resp :: response
  rnd_choice :: nat
  rnd_qty :: nat

definition step :: "cycle \<Rightarrow> session \<Rightarrow> result" where
  "step c s =
     (case chosen c of
        Index \<Rightarrow> returned (index s)
      | SetCurrency \<Rightarrow> returned (set_currency (rnd_choice c) s)
      | BrowseProduct \<Rightarrow> browse_product (index_resp c) (rnd_choice c) s
      | AddToCart \<Rightarrow> add_to_cart (index_resp c) (rnd_choice c) (rnd_qty c) s
      | ViewCart \<Rightarrow> returned (view_cart s)
      | Checkout \<Rightarrow> checkout (main_resp c) s)"

text \<open>
  The runner is Locust's. An exception that leaves a task is caught and logged by the
  runner (\<open>Raised\<close> in the trace of the session), and the next cycle starts from the
  session the task left. A runner that ends the user there instead reaches the states
  that this one reaches on the cycles up to the raising one. An exception that leaves
  \<open>on_start\<close> ends the user: no cycle is run.
\<close>

definition uncaught :: "result \<Rightarrow> event list" where
  "uncaught r = (case raised r of None \<Rightarrow> [] | Some e \<Rightarrow> [Raised e])"

fun run :: "cycle list \<Rightarrow> session \<Rightarrow> session \<times> event list" where
  "run [] s = (s, [])"
| "run (c # cs) s =
     (let r = step c s;
          (s2, evs2) = run cs (sess r)
      in (s2, trace r @ uncaught r @ evs2))"

definition session_run :: "response \<Rightarrow> cycle list \<Rightarrow> session \<times> event list" where
  "session_run start cs =
     (let r = on_start start
      in case raised r of
           Some e \<Rightarrow> (sess r, trace r @ [Raised e])
         | None \<Rightarrow>
             (let (s, evs) = run cs (sess r)
              in (s, trace r @ evs)))"

subsection \<open>Task weights, the selector and the pacer\<close>

text \<open>The \<open>@task(n)\<close> decorators of the source, in the order of the class body.\<close>

definition task_weights :: "(action \<times> int) list" where
  "task_weights =
     [(Index, 1), (SetCurrency, 2), (BrowseProduct, 10), (AddToCart, 2), (ViewCart, 3),
      (Checkout, 1)]"

text \<open>
  Modelled from the spec: the total weight of a weight table (3, 4.1), the sum of the
  weights of its descriptors. A descriptor is a pair of the action and its weight.
\<close>

definition total_weight :: "('a \<times> int) list \<Rightarrow> int" where
  "total_weight ds = sum_list (map snd ds)"

text \<open>
  Modelled from the spec: the weighted action selector. The source leaves the choice of
  the task to the Locust runner, which is not part of the repository. The spec (4.1):
  draw a uniform random value in \<open>[0, total_weight)\<close> and locate the descriptor whose
  cumulative range contains it. \<open>r\<close> is the value drawn.
\<close>

fun select_action :: "('a \<times> int) list \<Rightarrow> int \<Rightarrow> 'a option" where
  "select_action [] r = None"
| "select_action ((a, w) # ds) r = (if r < w then Some a else select_action ds (r - w))"

text \<open>
  Modelled from the spec: the construction of the action registry. The source has no
  registry of its own (the decorators register the tasks with Locust). The spec (4.1, 7):
  the total weight must be validated to be greater than zero at construction, and the
  failure is a ConfigurationError, fatal at startup.
\<close>

datatype config_error = ConfigurationError

definition build_registry :: "('a \<times> int) list \<Rightarrow> config_error + ('a \<times> int) list" where
  "build_registry ds = (if 0 < total_weight ds then Inr ds else Inl ConfigurationError)"

text \<open>
  Modelled from the spec: a run builds the registry once and then samples, one draw per
  cycle; a construction failure ends the run before the first draw.
\<close>

definition start_run :: "('a \<times> int) list \<Rightarrow> int list \<Rightarrow> config_error + 'a option list" where
  "start_run ds draws =
     (case build_registry ds of
        Inl e \<Rightarrow> Inl e
      | Inr reg \<Rightarrow> Inr (map (select_action reg) draws))"

text \<open>
  Modelled from the spec: the pacer \<open>between\<close> belongs to Locust, not to the repository.
  The spec (4.4): the delay is drawn uniformly from the closed interval \<open>[min, max]\<close>.
  \<open>u\<close> is the uniform draw from the unit interval; the source's floats are taken as
  reals. \<open>wait_time\<close> is the class attribute of the source, with its bounds.
\<close>

definition between :: "real \<Rightarrow> real \<Rightarrow> real \<Rightarrow> real" where
  "between lo hi u = lo + u * (hi - lo)"

definition wait_time :: "real \<Rightarrow> real" where
  "wait_time = between 1.0 3.0"

text \<open>
  Modelled from the spec: the delay is sampled anew on each cycle (4.4), so the delays of
  a session are the images of its draws, one per cycle.
\<close>

definition think_times :: "real list \<Rightarrow> real list" where
  "think_times us = map wait_time us"

subsection \<open>Sample inputs\<close>

definition resp_503 :: response where
  "resp_503 = \<lparr>ok = Inr False, status_code = 503, resp_text = None\<rparr>"

definition resp_refused :: response where
  "resp_refused = \<lparr>ok = Inl TransportError, status_code = 0, resp_text = None\<rparr>"

definition resp_page :: response where
  "resp_page = \<lparr>ok = Inr True, status_code = 200,
                 resp_text = Some ''<a href=\"/product/ABC-1\">''\<rparr>"

definition session_X :: session where
  "session_X = \<lparr>product_ids = [''X''], cart_items = []\<rparr>"

definition add_cycle :: "nat \<Rightarrow> cycle" where
  "add_cycle h = \<lparr>chosen = AddToCart, index_resp = resp_503, main_resp = resp_503,
                  rnd_choice = 0, rnd_qty = h\<rparr>"

definition browse_cycle :: "response \<Rightarrow> cycle" where
  "browse_cycle idx = \<lparr>chosen = BrowseProduct, index_resp = idx, main_resp = resp_503,
                       rnd_choice = 0, rnd_qty = 0\<rparr>"

definition page_two :: string where
  "page_two = ''<a href=\"/product/ABC-1\">A</a> <a href=\"/product/OLJCESPC7Z\">B</a>''"

definition page_none :: string where
  "page_none = ''<html><a href=\"/product/\">none</a> /cart</html>''"

definition page_other :: string where
  "page_other = ''<a href=\"/product/XYZ-9\">C</a>''"

definition session_new :: session where
  "session_new = \<lparr>product_ids = [], cart_items = []\<rparr>"

section \<open>Properties\<close>

subsection \<open>Reading a trace and a result\<close>

lemma requests_simps [simp]:
  "requests [] = []"
  "requests (Request r # evs) = Request r # requests evs"
  "requests (Success n # evs) = requests evs"
  "requests (Failure n m # evs) = requests evs"
  "requests (ProductsSet ps # evs) = requests evs"
  "requests (CartAppend l # evs) = requests evs"
  "requests (CartClear # evs) = requests evs"
  "requests (Raised e # evs) = requests evs"
  "requests (xs @ ys) = requests xs @ requests ys"
  by (simp_all add: requests_def)

lemma failures_simps [simp]:
  "failures [] = []"
  "failures (Request r # evs) = failures evs"
  "failures (Success n # evs) = failures evs"
  "failures (Failure n m # evs) = Failure n m # failures evs"
  "failures (ProductsSet ps # evs) = failures evs"
  "failures (CartAppend l # evs) = failures evs"
  "failures (CartClear # evs) = failures evs"
  "failures (Raised e # evs) = failures evs"
  "failures (xs @ ys) = failures xs @ failures ys"
  by (simp_all add: failures_def)

lemma returned_simps [simp]:
  "sess (returned p) = fst p" "trace (returned p) = snd p" "raised (returned p) = None"
  by (simp_all add: returned_def)

lemma uncaught_simps [simp]:
  "raised r = None \<Longrightarrow> uncaught r = []"
  "raised r = Some e \<Longrightarrow> uncaught r = [Raised e]"
  by (simp_all add: uncaught_def)

subsection \<open>Checkout\<close>

text \<open>
  C1. On an empty cart \<open>checkout\<close> issues no request and returns the session as it
  was. On a non-empty cart it issues exactly one request, the checkout request, whatever
  the response. If the response is ok the cart is empty afterwards; if it is not ok the
  session (the cart, line for line) is what it was before and the failure is reported;
  and if reading \<open>resp.ok\<close> raises, the session is what it was before, nothing is
  reported and the exception leaves the handler.
\<close>

theorem checkout_cart:
  "(cart_items s = [] \<longrightarrow> checkout resp s = \<lparr>sess = s, trace = [], raised = None\<rparr>) \<and>
   (cart_items s \<noteq> [] \<longrightarrow>
      requests (trace (checkout resp s)) = [Request checkout_request] \<and>
      product_ids (sess (checkout resp s)) = product_ids s \<and>
      (ok resp = Inr True \<longrightarrow>
         cart_items (sess (checkout resp s)) = [] \<and>
         failures (trace (checkout resp s)) = [] \<and>
         raised (checkout resp s) = None) \<and>
      (ok resp = Inr False \<longrightarrow>
         sess (checkout resp s) = s \<and>
         failures (trace (checkout resp s)) =
           [Failure ''cart:checkout'' (''Checkout failed with '' @ str_int (status_code resp))] \<and>
         raised (checkout resp s) = None) \<and>
      (\<forall>e. ok resp = Inl e \<longrightarrow>
         sess (checkout resp s) = s \<and>
         failures (trace (checkout resp s)) = [] \<and>
         raised (checkout resp s) = Some e))"
  by (cases "ok resp") (auto simp: checkout_def)

theorem checkout_cart_witness:
  "checkout resp_page \<lparr>product_ids = [''X''], cart_items = []\<rparr>
     = \<lparr>sess = \<lparr>product_ids = [''X''], cart_items = []\<rparr>, trace = [], raised = None\<rparr> \<and>
   ok resp_page = Inr True \<and>
   cart_items (sess (checkout resp_page
                     \<lparr>product_ids = [''X''], cart_items = [(''X'', 2), (''X'', 1)]\<rparr>)) = [] \<and>
   ok resp_503 = Inr False \<and>
   sess (checkout resp_503 \<lparr>product_ids = [''X''], cart_items = [(''X'', 2), (''X'', 1)]\<rparr>)
     = \<lparr>product_ids = [''X''], cart_items = [(''X'', 2), (''X'', 1)]\<rparr> \<and>
   failures (trace (checkout resp_503
                     \<lparr>product_ids = [''X''], cart_items = [(''X'', 2), (''X'', 1)]\<rparr>))
     = [Failure ''cart:checkout'' ''Checkout failed with 503''] \<and>
   ok resp_refused = Inl TransportError \<and>
   sess (checkout resp_refused \<lparr>product_ids = [''X''], cart_items = [(''X'', 2), (''X'', 1)]\<rparr>)
     = \<lparr>product_ids = [''X''], cart_items = [(''X'', 2), (''X'', 1)]\<rparr> \<and>
   requests (trace (checkout resp_refused
                     \<lparr>product_ids = [''X''], cart_items = [(''X'', 2), (''X'', 1)]\<rparr>))
     = [Request checkout_request] \<and>
   raised (checkout resp_refused
             \<lparr>product_ids = [''X''], cart_items = [(''X'', 2), (''X'', 1)]\<rparr>)
     = Some TransportError"
proof -
  have k: "ok resp_page = Inr True" "ok resp_503 = Inr False" "ok resp_refused = Inl TransportError"
    by (simp_all add: resp_page_def resp_503_def resp_refused_def)
  have d: "str_int (status_code resp_503) = ''503''"
    by (simp add: resp_503_def str_int_def digits.simps)
  show ?thesis
    using checkout_cart [of "\<lparr>product_ids = [''X''], cart_items = []\<rparr>" resp_page]
        checkout_cart [of "\<lparr>product_ids = [''X''], cart_items = [(''X'', 2), (''X'', 1)]\<rparr>"
                          resp_page]
        checkout_cart [of "\<lparr>product_ids = [''X''], cart_items = [(''X'', 2), (''X'', 1)]\<rparr>"
                          resp_503]
        checkout_cart [of "\<lparr>product_ids = [''X''], cart_items = [(''X'', 2), (''X'', 1)]\<rparr>"
                          resp_refused]
    by (simp add: k d)
qed

subsection \<open>The random module and the helpers\<close>

lemma randbelow_less: "0 < n \<Longrightarrow> randbelow n g < n"
  by (simp add: randbelow_def)

lemma choice_in_set: "xs \<noteq> [] \<Longrightarrow> choice g xs \<in> set xs"
  by (simp add: choice_def randbelow_less)

lemma randint_1_3: "randint 1 3 h = 1 + int (h mod 3)"
  by (simp add: randint_def randbelow_def)

lemma randint_1_3_bounds: "1 \<le> randint 1 3 h \<and> randint 1 3 h \<le> 3"
  unfolding randint_1_3 by simp

lemma distinct_CURRENCIES: "distinct CURRENCIES"
  by (simp add: CURRENCIES_def)

lemma length_CURRENCIES: "length CURRENCIES = 6"
  by (simp add: CURRENCIES_def)

lemma load_products_ok:
  "ok resp = Inr True \<Longrightarrow>
     load_products resp s =
       \<lparr>sess = s\<lparr>product_ids := findall (case resp_text resp of None \<Rightarrow> [] | Some t \<Rightarrow> t)\<rparr>,
        trace = [Request (index_request True),
                 ProductsSet (findall (case resp_text resp of None \<Rightarrow> [] | Some t \<Rightarrow> t)),
                 Success ''index''],
        raised = None\<rparr>"
  by (simp add: load_products_def Let_def del: findall.simps)

lemma load_products_failed:
  "ok resp = Inr False \<Longrightarrow>
     load_products resp s =
       \<lparr>sess = s,
        trace = [Request (index_request True),
                 Failure ''index'' (''Index failed with '' @ str_int (status_code resp))],
        raised = None\<rparr>"
  by (simp add: load_products_def)

lemma load_products_raises:
  "ok resp = Inl e \<Longrightarrow>
     load_products resp s =
       \<lparr>sess = s, trace = [Request (index_request True)], raised = Some e\<rparr>"
  by (simp add: load_products_def)

lemma ok_cases:
  obtains (raises) e where "ok resp = Inl e"
  | (failed) "ok resp = Inr False"
  | (ok) "ok resp = Inr True"
  by (cases "ok resp") auto

lemma load_products_cart [simp]: "cart_items (sess (load_products r s)) = cart_items s"
  by (cases r rule: ok_cases)
    (simp_all add: load_products_ok load_products_failed load_products_raises
      del: findall.simps)

lemma choose_product_known:
  "product_ids s \<noteq> [] \<Longrightarrow> choose_product idx g s = (Inr (choice g (product_ids s)), s, [])"
  by (simp add: choose_product_def)

lemma choose_product_single:
  "product_ids s = [x] \<Longrightarrow> choose_product idx g s = (Inr x, s, [])"
  by (simp add: choose_product_def choice_def randbelow_def)

lemma choose_product_empty:
  "product_ids s = [] \<Longrightarrow>
     choose_product idx g s =
       (case raised (load_products idx s) of
          Some e \<Rightarrow> Inl e
        | None \<Rightarrow>
            if product_ids (sess (load_products idx s)) = [] then Inr []
            else Inr (choice g (product_ids (sess (load_products idx s)))),
        sess (load_products idx s), trace (load_products idx s))"
  by (simp add: choose_product_def Let_def split: option.splits)

lemma choose_product_cart [simp]:
  "cart_items (fst (snd (choose_product idx g s))) = cart_items s"
  by (cases "product_ids s = []") (simp_all add: choose_product_empty choose_product_known)

lemma add_to_cart_selected:
  assumes "fst (choose_product idx g s) = Inr pid" and "pid \<noteq> []"
  shows "add_to_cart idx g h s =
           \<lparr>sess = (fst (snd (choose_product idx g s)))
                     \<lparr>cart_items := cart_items s @ [(pid, randint 1 3 h)]\<rparr>,
            trace = snd (snd (choose_product idx g s)) @
                     [CartAppend (pid, randint 1 3 h),
                      Request (cart_add_request pid (randint 1 3 h))],
            raised = None\<rparr>"
proof -
  obtain v s1 evs where cp: "choose_product idx g s = (v, s1, evs)"
    by (cases "choose_product idx g s") auto
  have "cart_items s1 = cart_items s"
    using choose_product_cart [of idx g s] cp by simp
  with cp assms show ?thesis
    by (simp add: add_to_cart_def Let_def)
qed

lemma add_to_cart_skipped:
  assumes "fst (choose_product idx g s) = Inr []"
  shows "add_to_cart idx g h s =
           \<lparr>sess = fst (snd (choose_product idx g s)),
            trace = snd (snd (choose_product idx g s)), raised = None\<rparr>"
  using assms by (cases "choose_product idx g s") (simp add: add_to_cart_def)

lemma add_to_cart_raises:
  assumes "fst (choose_product idx g s) = Inl e"
  shows "add_to_cart idx g h s =
           \<lparr>sess = fst (snd (choose_product idx g s)),
            trace = snd (snd (choose_product idx g s)), raised = Some e\<rparr>"
  using assms by (cases "choose_product idx g s") (simp add: add_to_cart_def)

subsection \<open>Adding to the cart\<close>

text \<open>
  C2. When \<open>_choose_product\<close> returns an item, \<open>add_to_cart\<close> appends the line
  (item, quantity) at the end of the cart, whatever lines the cart holds already, and
  the append precedes the request in the trace. The session after the cycle does not
  depend on the response to the request. Two successive calls for item \<open>X\<close> with
  quantities 2 and 1 extend the cart by the lines (X, 2) and (X, 1), in this order.
\<close>

theorem add_to_cart_appends:
  "(fst (choose_product idx g s) = Inr pid \<and> pid \<noteq> [] \<longrightarrow>
      cart_items (sess (add_to_cart idx g h s)) = cart_items s @ [(pid, randint 1 3 h)] \<and>
      trace (add_to_cart idx g h s) =
        snd (snd (choose_product idx g s)) @
          [CartAppend (pid, randint 1 3 h), Request (cart_add_request pid (randint 1 3 h))] \<and>
      raised (add_to_cart idx g h s) = None) \<and>
   (chosen c = AddToCart \<longrightarrow> step (c\<lparr>main_resp := r\<rparr>) s = step c s) \<and>
   (product_ids s = [''X''] \<and> chosen c1 = AddToCart \<and> chosen c2 = AddToCart \<and>
    randint 1 3 (rnd_qty c1) = 2 \<and> randint 1 3 (rnd_qty c2) = 1 \<longrightarrow>
      cart_items (fst (run [c1, c2] s)) = cart_items s @ [(''X'', 2), (''X'', 1)])"
proof -
  have sel: "cart_items (sess (add_to_cart idx g h s)) = cart_items s @ [(pid, randint 1 3 h)] \<and>
      trace (add_to_cart idx g h s) =
        snd (snd (choose_product idx g s)) @
          [CartAppend (pid, randint 1 3 h), Request (cart_add_request pid (randint 1 3 h))] \<and>
      raised (add_to_cart idx g h s) = None"
    if "fst (choose_product idx g s) = Inr pid \<and> pid \<noteq> []"
    using that by (simp add: add_to_cart_selected)
  have resp: "step (c\<lparr>main_resp := r\<rparr>) s = step c s" if "chosen c = AddToCart"
    using that by (simp add: step_def)
  have two: "cart_items (fst (run [c1, c2] s)) = cart_items s @ [(''X'', 2), (''X'', 1)]"
    if a: "product_ids s = [''X''] \<and> chosen c1 = AddToCart \<and> chosen c2 = AddToCart \<and>
      randint 1 3 (rnd_qty c1) = 2 \<and> randint 1 3 (rnd_qty c2) = 1"
  proof -
    from a have ps: "product_ids s = [''X'']" by simp
    have first: "step c1 s =
        \<lparr>sess = s\<lparr>cart_items := cart_items s @ [(''X'', 2)]\<rparr>,
         trace = [CartAppend (''X'', 2), Request (cart_add_request ''X'' 2)],
         raised = None\<rparr>"
      using a by (simp add: step_def add_to_cart_def choose_product_single [OF ps])
    have ps2: "product_ids (s\<lparr>cart_items := cart_items s @ [(''X'', 2)]\<rparr>) = [''X'']"
      using ps by simp
    have second: "step c2 (s\<lparr>cart_items := cart_items s @ [(''X'', 2)]\<rparr>) =
        \<lparr>sess = s\<lparr>cart_items := cart_items s @ [(''X'', 2), (''X'', 1)]\<rparr>,
         trace = [CartAppend (''X'', 1), Request (cart_add_request ''X'' 1)],
         raised = None\<rparr>"
      using a by (simp add: step_def add_to_cart_def choose_product_single [OF ps2])
    show ?thesis by (simp add: first second)
  qed
  from sel resp two show ?thesis by blast
qed

theorem add_to_cart_appends_witness:
  "fst (choose_product resp_503 0 session_X) = Inr ''X'' \<and>
   cart_items (sess (add_to_cart resp_503 0 1 session_X)) = [(''X'', 2)] \<and>
   trace (add_to_cart resp_503 0 1 session_X) =
     [CartAppend (''X'', 2), Request (cart_add_request ''X'' 2)] \<and>
   chosen (add_cycle 1) = AddToCart \<and>
   step ((add_cycle 1)\<lparr>main_resp := resp_page\<rparr>) session_X = step (add_cycle 1) session_X \<and>
   product_ids session_X = [''X''] \<and> chosen (add_cycle 0) = AddToCart \<and>
   randint 1 3 (rnd_qty (add_cycle 1)) = 2 \<and> randint 1 3 (rnd_qty (add_cycle 0)) = 1 \<and>
   cart_items (fst (run [add_cycle 1, add_cycle 0] session_X)) = [(''X'', 2), (''X'', 1)]"
proof -
  have ps: "product_ids session_X = [''X'']" "cart_items session_X = []"
    by (simp_all add: session_X_def)
  have cp: "choose_product resp_503 0 session_X = (Inr ''X'', session_X, [])"
    by (rule choose_product_single) (rule ps)
  have ch: "chosen (add_cycle 1) = AddToCart" "chosen (add_cycle 0) = AddToCart"
    by (simp_all add: add_cycle_def)
  have q: "randint 1 3 1 = 2" "randint 1 3 (rnd_qty (add_cycle 1)) = 2"
    "randint 1 3 (rnd_qty (add_cycle 0)) = 1"
    by (simp_all add: randint_def randbelow_def add_cycle_def)
  show ?thesis
    using add_to_cart_appends [where idx = resp_503 and g = 0 and h = 1 and s = session_X
        and pid = "''X''"
        and c = "add_cycle 1" and r = resp_page and ?c1.0 = "add_cycle 1"
        and ?c2.0 = "add_cycle 0"]
    unfolding cp q ch ps by simp
qed

subsection \<open>The tasks that only issue a request\<close>

text \<open>
  C8. \<open>index\<close>, \<open>set_currency\<close> and \<open>view_cart\<close> return the session they were given:
  \<open>product_ids\<close> and \<open>cart_items\<close> are the same before and after. \<open>set_currency\<close> posts
  the currency code that \<open>random.choice\<close> picked from \<open>CURRENCIES\<close>, and the six codes
  share the generator's outputs evenly: code number \<open>i\<close> is picked exactly when the
  output is \<open>i\<close> modulo six.
\<close>

theorem stateless_tasks:
  "fst (index s) = s \<and> fst (view_cart s) = s \<and> fst (set_currency g s) = s \<and>
   snd (set_currency g s) =
     [Request \<lparr>r_method = POST, r_path = ''/setCurrency'', r_name = ''setCurrency'',
               r_data = [(''currency_code'', StrV (choice g CURRENCIES))], r_catch = False\<rparr>] \<and>
   choice g CURRENCIES \<in> set CURRENCIES \<and>
   (\<forall>i < length CURRENCIES. (choice g CURRENCIES = CURRENCIES ! i) = (g mod length CURRENCIES = i))"
proof -
  have "choice g CURRENCIES \<in> set CURRENCIES"
    by (rule choice_in_set) (simp add: CURRENCIES_def)
  moreover have "(choice g CURRENCIES = CURRENCIES ! i) = (g mod length CURRENCIES = i)"
    if "i < length CURRENCIES" for i
    using that distinct_CURRENCIES
    by (simp add: choice_def randbelow_def nth_eq_iff_index_eq length_CURRENCIES)
  ultimately show ?thesis
    by (simp add: index_def view_cart_def set_currency_def)
qed

theorem stateless_tasks_witness:
  "fst (index \<lparr>product_ids = [''X''], cart_items = [(''X'', 2)]\<rparr>)
     = \<lparr>product_ids = [''X''], cart_items = [(''X'', 2)]\<rparr> \<and>
   fst (set_currency 8 \<lparr>product_ids = [''X''], cart_items = [(''X'', 2)]\<rparr>)
     = \<lparr>product_ids = [''X''], cart_items = [(''X'', 2)]\<rparr> \<and>
   (2::nat) < length CURRENCIES \<and> choice 8 CURRENCIES = CURRENCIES ! 2 \<and>
   choice 8 CURRENCIES = ''JPY''"
proof -
  have h: "(2::nat) < length CURRENCIES" by (simp add: CURRENCIES_def)
  have "choice 8 CURRENCIES = CURRENCIES ! 2"
    using stateless_tasks [of "\<lparr>product_ids = [''X''], cart_items = [(''X'', 2)]\<rparr>" 8] h
    by (simp add: length_CURRENCIES)
  then show ?thesis
    using stateless_tasks [of "\<lparr>product_ids = [''X''], cart_items = [(''X'', 2)]\<rparr>" 8] h
    by (simp add: CURRENCIES_def)
qed

subsection \<open>A failed start\<close>

text \<open>
  When the initial \<open>GET /\<close> is answered with an error status, \<open>on_start\<close> returns
  normally with an empty \<open>product_ids\<close> and an empty cart, having reported the failure,
  and the cycles are run from that state.
\<close>

lemma on_start_error_status:
  assumes "ok start = Inr False"
  shows "on_start start =
           \<lparr>sess = \<lparr>product_ids = [], cart_items = []\<rparr>,
            trace = [Request (index_request True),
                     Failure ''index'' (''Index failed with '' @ str_int (status_code start))],
            raised = None\<rparr> \<and>
         session_run start cs =
           (fst (run cs \<lparr>product_ids = [], cart_items = []\<rparr>),
            [Request (index_request True),
             Failure ''index'' (''Index failed with '' @ str_int (status_code start))] @
            snd (run cs \<lparr>product_ids = [], cart_items = []\<rparr>))"
  using assms
  by (simp add: on_start_def load_products_failed session_run_def case_prod_beta)

text \<open>
  C7. A session whose initial index request fails is to go on with an empty catalogue,
  the failure reported. When the request fails in the transport the code does not:
  reading \<open>resp.ok\<close> raises, \<open>on_start\<close> is left by the exception with nothing but the
  request in its trace, no failure is reported, and the session runs none of its cycles.
\<close>

theorem on_start_transport_error:
  "ok resp_refused = Inl TransportError \<and>
   on_start resp_refused =
     \<lparr>sess = \<lparr>product_ids = [], cart_items = []\<rparr>,
      trace = [Request (index_request True)], raised = Some TransportError\<rparr> \<and>
   failures (trace (on_start resp_refused)) = [] \<and>
   session_run resp_refused [browse_cycle resp_page, add_cycle 4] =
     (\<lparr>product_ids = [], cart_items = []\<rparr>,
      [Request (index_request True), Raised TransportError])"
proof -
  have k: "ok resp_refused = Inl TransportError" by (simp add: resp_refused_def)
  have o: "on_start resp_refused =
     \<lparr>sess = \<lparr>product_ids = [], cart_items = []\<rparr>,
      trace = [Request (index_request True)], raised = Some TransportError\<rparr>"
    unfolding on_start_def by (rule load_products_raises) (rule k)
  show ?thesis
    by (simp add: k o session_run_def)
qed

subsection \<open>Catalogue discovery\<close>

lemma strip_prefix_Some: "(strip_prefix p s = Some r) = (s = p @ r)"
  by (induction p s rule: strip_prefix.induct) auto

lemma match_here_Some:
  "(match_here s = Some ident) =
     (\<exists>rest. s = ''/product/'' @ rest \<and> ident = takeWhile is_id_char rest \<and> ident \<noteq> [])"
proof (cases "strip_prefix ''/product/'' s")
  case None
  then have "\<not> (\<exists>rest. s = ''/product/'' @ rest)"
    by (metis strip_prefix_Some option.distinct(1))
  with None show ?thesis
    by (auto simp: match_here_def)
next
  case (Some rest)
  then have "s = ''/product/'' @ rest"
    by (simp only: strip_prefix_Some)
  with Some show ?thesis
    by (auto simp: match_here_def Let_def)
qed

lemma match_here_None:
  "match_here s = None \<Longrightarrow> \<not> (\<exists>c post. s = ''/product/'' @ c # post \<and> is_id_char c)"
proof
  assume n: "match_here s = None" and "\<exists>c post. s = ''/product/'' @ c # post \<and> is_id_char c"
  then obtain c post where s: "s = ''/product/'' @ c # post" and c: "is_id_char c" by blast
  from c have "takeWhile is_id_char (c # post) \<noteq> []" by simp
  with s have "match_here s = Some (takeWhile is_id_char (c # post))"
    by (simp only: match_here_Some) blast
  with n show False by simp
qed

lemma findall_idents:
  "ident \<in> set (findall s) \<Longrightarrow>
     ident \<noteq> [] \<and> (\<forall>c \<in> set ident. is_id_char c) \<and>
     (\<exists>pre post. s = pre @ ''/product/'' @ ident @ post)"
proof (induction s rule: findall.induct)
  case 1
  then show ?case by simp
next
  case (2 c cs)
  show ?case
  proof (cases "match_here (c # cs)")
    case None
    with 2 have "ident \<noteq> [] \<and> (\<forall>c \<in> set ident. is_id_char c) \<and>
        (\<exists>pre post. cs = pre @ ''/product/'' @ ident @ post)"
      by simp
    then obtain pre post where i: "ident \<noteq> []" "\<forall>c \<in> set ident. is_id_char c"
      and "cs = pre @ ''/product/'' @ ident @ post" by blast
    then have "c # cs = (c # pre) @ ''/product/'' @ ident @ post" by simp
    with i show ?thesis by blast
  next
    case (Some m)
    then obtain rest where s: "c # cs = ''/product/'' @ rest"
      and m: "m = takeWhile is_id_char rest" and ne: "m \<noteq> []"
      by (auto simp only: match_here_Some)
    let ?n = "length ''/product/'' + length m"
    from "2.prems" Some have "ident = m \<or> ident \<in> set (findall (drop ?n (c # cs)))"
      by auto
    then show ?thesis
    proof
      assume "ident = m"
      moreover have "rest = m @ dropWhile is_id_char rest"
        using m by simp
      then have "c # cs = [] @ ''/product/'' @ m @ dropWhile is_id_char rest"
        using s by simp
      moreover have "\<forall>c \<in> set m. is_id_char c"
        using m by (auto dest: set_takeWhileD)
      ultimately show ?thesis using ne by blast
    next
      assume "ident \<in> set (findall (drop ?n (c # cs)))"
      with "2.IH"(2) [OF Some] have "ident \<noteq> [] \<and> (\<forall>c \<in> set ident. is_id_char c) \<and>
        (\<exists>pre post. drop ?n (c # cs) = pre @ ''/product/'' @ ident @ post)"
        by simp
      then obtain pre post where i: "ident \<noteq> []" "\<forall>c \<in> set ident. is_id_char c"
        and d: "drop ?n (c # cs) = pre @ ''/product/'' @ ident @ post" by blast
      have "c # cs = take ?n (c # cs) @ drop ?n (c # cs)"
        by (simp only: append_take_drop_id)
      with d have "c # cs = (take ?n (c # cs) @ pre) @ ''/product/'' @ ident @ post"
        by simp
      with i show ?thesis by blast
    qed
  qed
qed

lemma findall_finds:
  "s = pre @ ''/product/'' @ c # post \<Longrightarrow> is_id_char c \<Longrightarrow> findall s \<noteq> []"
proof (induction pre arbitrary: s)
  case Nil
  then have "match_here s \<noteq> None"
    using match_here_None [of s] by auto
  with Nil show ?case by auto
next
  case (Cons a pre)
  then obtain cs where s: "s = a # cs" and cs: "cs = pre @ ''/product/'' @ c # post"
    by simp
  show ?case
  proof (cases "match_here s")
    case None
    with s Cons.IH [OF cs Cons.prems(2)] show ?thesis by simp
  next
    case (Some m)
    with s show ?thesis by simp
  qed
qed

lemma findall_Nil_iff:
  "(findall s = []) = (\<not> (\<exists>pre c post. s = pre @ ''/product/'' @ c # post \<and> is_id_char c))"
proof
  assume "findall s = []"
  then show "\<not> (\<exists>pre c post. s = pre @ ''/product/'' @ c # post \<and> is_id_char c)"
    using findall_finds by blast
next
  assume n: "\<not> (\<exists>pre c post. s = pre @ ''/product/'' @ c # post \<and> is_id_char c)"
  show "findall s = []"
  proof (rule ccontr)
    assume "findall s \<noteq> []"
    then obtain ident where "ident \<in> set (findall s)"
      by (cases "findall s") auto
    then obtain pre post where i: "ident \<noteq> []" "\<forall>c \<in> set ident. is_id_char c"
      and s: "s = pre @ ''/product/'' @ ident @ post"
      using findall_idents by blast
    from i obtain c r where "ident = c # r" "is_id_char c"
      by (cases ident) auto
    with s have "s = pre @ ''/product/'' @ c # (r @ post)" by simp
    with \<open>is_id_char c\<close> n show False by blast
  qed
qed

lemma findall_page_two: "findall page_two = [''ABC-1'', ''OLJCESPC7Z'']"
  by (simp add: page_two_def match_here_def is_id_char_def)

lemma findall_page_none: "findall page_none = []"
  by (simp add: page_none_def match_here_def is_id_char_def)

lemma findall_unfold:
  "s \<noteq> [] \<Longrightarrow>
     findall s =
       (case match_here s of
          Some ident \<Rightarrow> ident # findall (drop (length ''/product/'' + length ident) s)
        | None \<Rightarrow> findall (tl s))"
  by (cases s) (auto split: option.splits)

lemma takeWhile_run:
  assumes "\<forall>c \<in> set ident. is_id_char c" and "post = [] \<or> \<not> is_id_char (hd post)"
  shows "takeWhile is_id_char (ident @ post) = ident"
proof -
  have "takeWhile is_id_char post = []"
    using assms(2) by (cases post) auto
  with assms(1) show ?thesis by (simp add: takeWhile_append2)
qed

lemma findall_first_match:
  assumes "ident \<noteq> []" and "\<forall>c \<in> set ident. is_id_char c"
    and "post = [] \<or> \<not> is_id_char (hd post)"
    and "\<not> (\<exists>p c r. length p < length pre \<and>
               pre @ ''/product/'' @ ident @ post = p @ ''/product/'' @ c # r \<and> is_id_char c)"
  shows "findall (pre @ ''/product/'' @ ident @ post) = ident # findall post"
  using assms(4)
proof (induction pre)
  case Nil
  let ?m = "''/product/'' @ ident @ post"
  have mh: "match_here ?m = Some ident"
    unfolding match_here_Some
    using takeWhile_run [OF assms(2,3)] assms(1) by (intro exI [of _ "ident @ post"]) simp
  have dr: "drop (length ''/product/'' + length ident) ?m = post"
    by simp
  have u: "findall ?m =
      (case match_here ?m of
         Some i \<Rightarrow> i # findall (drop (length ''/product/'' + length i) ?m)
       | None \<Rightarrow> findall (tl ?m))"
    by (rule findall_unfold) simp
  have "findall ?m = ident # findall post"
    by (simp only: u mh option.case dr)
  then show ?case by simp
next
  case (Cons a pre)
  let ?b = "(a # pre) @ ''/product/'' @ ident @ post"
  have "match_here ?b = None"
  proof (rule ccontr)
    assume "match_here ?b \<noteq> None"
    then obtain m where "match_here ?b = Some m" by auto
    then obtain rest where b: "?b = ''/product/'' @ rest" and m: "takeWhile is_id_char rest \<noteq> []"
      unfolding match_here_Some by blast
    from m obtain c r where "rest = c # r" "is_id_char c"
      by (cases rest) (auto split: if_splits)
    with b have "?b = [] @ ''/product/'' @ c # r \<and> is_id_char c" by simp
    with Cons.prems show False by (metis length_greater_0_conv list.distinct(1) list.size(3))
  qed
  then have "findall ?b = findall (pre @ ''/product/'' @ ident @ post)"
    by (simp add: findall_unfold del: findall.simps)
  moreover have "\<not> (\<exists>p c r. length p < length pre \<and>
      pre @ ''/product/'' @ ident @ post = p @ ''/product/'' @ c # r \<and> is_id_char c)"
  proof
    assume "\<exists>p c r. length p < length pre \<and>
      pre @ ''/product/'' @ ident @ post = p @ ''/product/'' @ c # r \<and> is_id_char c"
    then obtain p c r where "length p < length pre"
      and "pre @ ''/product/'' @ ident @ post = p @ ''/product/'' @ c # r" and "is_id_char c"
      by blast
    then have "length (a # p) < length (a # pre) \<and>
        ?b = (a # p) @ ''/product/'' @ c # r \<and> is_id_char c"
      by simp
    with Cons.prems show False by blast
  qed
  ultimately show ?case using Cons.IH by simp
qed

lemma slash_free_prefix:
  assumes "CHR ''/'' \<notin> set pre"
  shows "\<not> (\<exists>p c r. length p < length pre \<and> pre @ m = p @ ''/product/'' @ c # r \<and> is_id_char c)"
proof
  assume "\<exists>p c r. length p < length pre \<and> pre @ m = p @ ''/product/'' @ c # r \<and> is_id_char c"
  then obtain p c r where l: "length p < length pre"
    and e: "pre @ m = p @ ''/product/'' @ c # r" by blast
  have "(p @ ''/product/'' @ c # r) ! length p = CHR ''/''"
    by (simp add: nth_append)
  with e have "(pre @ m) ! length p = CHR ''/''" by simp
  with l have "pre ! length p = CHR ''/''" by (simp add: nth_append)
  with l assms show False by (metis nth_mem)
qed

text \<open>
  C3. Discovery is \<open>findall\<close> on the response body, a function of the body alone. On a
  page with links to \<open>/product/ABC-1\<close> and \<open>/product/OLJCESPC7Z\<close> it returns exactly
  these two identifiers. It returns nothing exactly on the bodies in which the prefix
  \<open>/product/\<close> is nowhere followed by a character of the class, and that is a value, not
  an error. Every identifier it returns is non-empty, consists of characters of the
  class and stands in the body behind the prefix. It misses no match: where the first
  match of the body is the prefix followed by the run \<open>m\<close> of class characters, the
  result is \<open>m\<close> followed by what discovery finds behind that match. What
  \<open>_load_products\<close> stores on an ok response is \<open>findall\<close> of the body, whatever the
  session was.
\<close>

theorem catalog_discovery:
  "set (findall page_two) = {''ABC-1'', ''OLJCESPC7Z''} \<and>
   findall page_two = [''ABC-1'', ''OLJCESPC7Z''] \<and>
   (findall body = []) =
     (\<not> (\<exists>pre c post. body = pre @ ''/product/'' @ c # post \<and> is_id_char c)) \<and>
   (\<not> (\<exists>pre c post. body = pre @ ''/product/'' @ c # post \<and> is_id_char c) \<longrightarrow>
      set (findall body) = {}) \<and>
   (\<forall>ident \<in> set (findall body).
      ident \<noteq> [] \<and> (\<forall>c \<in> set ident. is_id_char c) \<and>
      (\<exists>pre post. body = pre @ ''/product/'' @ ident @ post)) \<and>
   (m \<noteq> [] \<and> (\<forall>c \<in> set m. is_id_char c) \<and> (rest = [] \<or> \<not> is_id_char (hd rest)) \<and>
    \<not> (\<exists>p c r. length p < length before \<and>
           before @ ''/product/'' @ m @ rest = p @ ''/product/'' @ c # r \<and> is_id_char c) \<longrightarrow>
      findall (before @ ''/product/'' @ m @ rest) = m # findall rest) \<and>
   (ok resp = Inr True \<and> resp_text resp = Some body \<longrightarrow>
      product_ids (sess (load_products resp s)) = findall body)"
proof -
  have two: "findall page_two = [''ABC-1'', ''OLJCESPC7Z'']"
    by (rule findall_page_two)
  then have two_set: "set (findall page_two) = {''ABC-1'', ''OLJCESPC7Z''}"
    by (simp only:) simp
  have none: "set (findall body) = {}"
    if "\<not> (\<exists>pre c post. body = pre @ ''/product/'' @ c # post \<and> is_id_char c)"
  proof -
    from that have "findall body = []" using findall_Nil_iff [of body] by blast
    then show ?thesis by simp
  qed
  have sound: "\<forall>ident \<in> set (findall body).
      ident \<noteq> [] \<and> (\<forall>c \<in> set ident. is_id_char c) \<and>
      (\<exists>pre post. body = pre @ ''/product/'' @ ident @ post)"
    using findall_idents by blast
  have first: "findall (before @ ''/product/'' @ m @ rest) = m # findall rest"
    if "m \<noteq> [] \<and> (\<forall>c \<in> set m. is_id_char c) \<and> (rest = [] \<or> \<not> is_id_char (hd rest)) \<and>
      \<not> (\<exists>p c r. length p < length before \<and>
           before @ ''/product/'' @ m @ rest = p @ ''/product/'' @ c # r \<and> is_id_char c)"
    using that by (intro findall_first_match) blast+
  have stored: "product_ids (sess (load_products resp s)) = findall body"
    if "ok resp = Inr True \<and> resp_text resp = Some body"
    using that by (simp add: load_products_ok del: findall.simps)
  from two two_set none sound first stored findall_Nil_iff [of body] show ?thesis
    by blast
qed

theorem catalog_discovery_witness:
  "\<not> (\<exists>pre c post. page_none = pre @ ''/product/'' @ c # post \<and> is_id_char c) \<and>
   set (findall page_none) = {} \<and>
   ''OLJCESPC7Z'' \<in> set (findall page_two) \<and>
   list_all is_id_char ''OLJCESPC7Z'' \<and>
   (\<exists>pre post. page_two = pre @ ''/product/'' @ ''OLJCESPC7Z'' @ post) \<and>
   ''XYZ-9'' \<noteq> [] \<and> list_all is_id_char ''XYZ-9'' \<and> \<not> is_id_char (hd ''\">C</a>'') \<and>
   \<not> (\<exists>p c r. length p < length ''<a href=\"'' \<and>
          ''<a href=\"'' @ ''/product/'' @ ''XYZ-9'' @ ''\">C</a>'' = p @ ''/product/'' @ c # r \<and>
          is_id_char c) \<and>
   page_other = ''<a href=\"'' @ ''/product/'' @ ''XYZ-9'' @ ''\">C</a>'' \<and>
   findall page_other = [''XYZ-9''] \<and>
   ok \<lparr>ok = Inr True, status_code = 200, resp_text = Some page_two\<rparr> = Inr True \<and>
   product_ids (sess (load_products \<lparr>ok = Inr True, status_code = 200, resp_text = Some page_two\<rparr>
                        session_X)) = [''ABC-1'', ''OLJCESPC7Z'']"
proof -
  have h: "\<not> (\<exists>pre c post. page_none = pre @ ''/product/'' @ c # post \<and> is_id_char c)"
    using findall_page_none findall_Nil_iff [of page_none] by blast
  have m: "''OLJCESPC7Z'' \<in> set (findall page_two)"
    by (simp only: findall_page_two) simp
  have x: "''XYZ-9'' \<noteq> []" "\<forall>c \<in> set ''XYZ-9''. is_id_char c"
    "''\">C</a>'' = [] \<or> \<not> is_id_char (hd ''\">C</a>'')"
    by (simp_all add: is_id_char_def)
  have n: "\<not> (\<exists>p c r. length p < length ''<a href=\"'' \<and>
          ''<a href=\"'' @ ''/product/'' @ ''XYZ-9'' @ ''\">C</a>'' = p @ ''/product/'' @ c # r \<and>
          is_id_char c)"
    by (rule slash_free_prefix) simp
  have po: "page_other = ''<a href=\"'' @ ''/product/'' @ ''XYZ-9'' @ ''\">C</a>''"
    by (simp add: page_other_def)
  have tail: "findall ''\">C</a>'' = []"
    by (simp add: match_here_def)
  note t = catalog_discovery [where body = page_none]
    catalog_discovery [where body = page_two
      and resp = "\<lparr>ok = Inr True, status_code = 200, resp_text = Some page_two\<rparr>"
      and s = session_X]
    catalog_discovery [where before = "''<a href=\"''" and m = "''XYZ-9''" and rest = "''\">C</a>''"]
  from t(1) h have e: "set (findall page_none) = {}" by blast
  from t(2) m have i: "(\<forall>c \<in> set ''OLJCESPC7Z''. is_id_char c) \<and>
      (\<exists>pre post. page_two = pre @ ''/product/'' @ ''OLJCESPC7Z'' @ post)"
    by blast
  from t(3) x n have "findall (''<a href=\"'' @ ''/product/'' @ ''XYZ-9'' @ ''\">C</a>'') =
      ''XYZ-9'' # findall ''\">C</a>''"
    by blast
  then have o: "findall page_other = [''XYZ-9'']"
    by (simp only: po tail)
  from t(2) have st: "product_ids (sess (load_products
      \<lparr>ok = Inr True, status_code = 200, resp_text = Some page_two\<rparr> session_X)) = findall page_two"
    by simp
  have l: "list_all is_id_char ''OLJCESPC7Z''" "list_all is_id_char ''XYZ-9''"
    "\<not> is_id_char (hd ''\">C</a>'')"
    by (simp_all add: is_id_char_def)
  from h e m i x n po o st l show ?thesis
    by (simp only: findall_page_two) simp
qed

subsection \<open>Browsing with an empty catalogue\<close>

lemma choice_findall_nonempty:
  assumes "findall body \<noteq> []"
  shows "choice g (findall body) \<noteq> []"
proof -
  have "choice g (findall body) \<in> set (findall body)"
    using assms by (rule choice_in_set)
  then show ?thesis using findall_idents by blast
qed

lemma browse_product_empty_ok:
  assumes "product_ids s = []" and "ok idx = Inr True"
  shows "browse_product idx g s =
     \<lparr>sess = s\<lparr>product_ids := findall (case resp_text idx of None \<Rightarrow> [] | Some t \<Rightarrow> t)\<rparr>,
      trace =
        [Request (index_request True),
         ProductsSet (findall (case resp_text idx of None \<Rightarrow> [] | Some t \<Rightarrow> t)),
         Success ''index''] @
        (if findall (case resp_text idx of None \<Rightarrow> [] | Some t \<Rightarrow> t) = [] then []
         else [Request (product_request
                 (choice g (findall (case resp_text idx of None \<Rightarrow> [] | Some t \<Rightarrow> t))))]),
      raised = None\<rparr>"
  using assms choice_findall_nonempty [of "case resp_text idx of None \<Rightarrow> [] | Some t \<Rightarrow> t" g]
  by (simp add: browse_product_def choose_product_empty load_products_ok del: findall.simps)

lemma browse_product_empty_failed:
  assumes "product_ids s = []" and "ok idx = Inr False"
  shows "browse_product idx g s =
     \<lparr>sess = s,
      trace = [Request (index_request True),
               Failure ''index'' (''Index failed with '' @ str_int (status_code idx))],
      raised = None\<rparr>"
  using assms
  by (simp add: browse_product_def choose_product_empty load_products_failed)

lemma browse_product_empty_raises:
  assumes "product_ids s = []" and "ok idx = Inl e"
  shows "browse_product idx g s =
     \<lparr>sess = s, trace = [Request (index_request True)], raised = Some e\<rparr>"
  using assms
  by (simp add: browse_product_def choose_product_empty load_products_raises)

lemma browse_product_known:
  assumes "product_ids s \<noteq> []"
  shows "browse_product idx g s =
     \<lparr>sess = s,
      trace = (if choice g (product_ids s) = [] then []
               else [Request (product_request (choice g (product_ids s)))]),
      raised = None\<rparr>"
  using assms by (simp add: browse_product_def choose_product_known)

lemma index_request_name [simp]: "r_name (index_request c) = ''index''"
  by (simp add: index_request_def)

text \<open>
  A session that knows no product and whose refresh is answered 503: the catalogue is
  still empty afterwards, the cycle issues no product request, and the trace holds a
  failure report, the one \<open>_load_products\<close> makes for the index request.
\<close>

theorem browse_skip_reports_index_failure:
  "product_ids session_new = [] \<and>
   product_ids (sess (browse_product resp_503 0 session_new)) = [] \<and>
   requests (trace (browse_product resp_503 0 session_new)) = [Request (index_request True)] \<and>
   failures (trace (browse_product resp_503 0 session_new)) =
     [Failure ''index'' ''Index failed with 503''] \<and>
   failures (trace (browse_product resp_503 0 session_new)) \<noteq> []"
proof -
  have e: "product_ids session_new = []" by (simp add: session_new_def)
  have n: "ok resp_503 = Inr False" by (simp add: resp_503_def)
  have d: "str_int (status_code resp_503) = ''503''"
    by (simp add: resp_503_def str_int_def digits.simps)
  show ?thesis
    by (simp add: browse_product_empty_failed [OF e n] d e)
qed

text \<open>
  C4, as the code has it. With an empty \<open>product_ids\<close>, \<open>browse_product\<close> issues exactly
  one index request, and if the catalogue is still empty afterwards that is the only
  request of the cycle. When the index response is ok the identifiers are extracted from
  its body and the handler reports no failure. When the index response has an error
  status the catalogue stays empty and the handler reports that index failure and
  nothing else. From any session, a request named \<open>product\<close> carries a non-empty
  identifier.
\<close>

theorem browse_product_rediscovery:
  "(product_ids s = [] \<longrightarrow>
      requests (trace (browse_product idx g s)) =
        Request (index_request True) #
          (if product_ids (sess (browse_product idx g s)) = [] then []
           else [Request (product_request
                   (choice g (product_ids (sess (browse_product idx g s)))))]) \<and>
      cart_items (sess (browse_product idx g s)) = cart_items s \<and>
      (ok idx = Inr True \<longrightarrow>
         product_ids (sess (browse_product idx g s)) =
           findall (case resp_text idx of None \<Rightarrow> [] | Some t \<Rightarrow> t) \<and>
         failures (trace (browse_product idx g s)) = [] \<and>
         raised (browse_product idx g s) = None) \<and>
      (ok idx = Inr False \<longrightarrow>
         product_ids (sess (browse_product idx g s)) = [] \<and>
         failures (trace (browse_product idx g s)) =
           [Failure ''index'' (''Index failed with '' @ str_int (status_code idx))] \<and>
         raised (browse_product idx g s) = None)) \<and>
   (\<forall>r. Request r \<in> set (trace (browse_product idx g s)) \<and> r_name r = ''product'' \<longrightarrow>
      (\<exists>pid. pid \<noteq> [] \<and> r = product_request pid))"
proof -
  have empty: "requests (trace (browse_product idx g s)) =
        Request (index_request True) #
          (if product_ids (sess (browse_product idx g s)) = [] then []
           else [Request (product_request
                   (choice g (product_ids (sess (browse_product idx g s)))))]) \<and>
      cart_items (sess (browse_product idx g s)) = cart_items s \<and>
      (ok idx = Inr True \<longrightarrow>
         product_ids (sess (browse_product idx g s)) =
           findall (case resp_text idx of None \<Rightarrow> [] | Some t \<Rightarrow> t) \<and>
         failures (trace (browse_product idx g s)) = [] \<and>
         raised (browse_product idx g s) = None) \<and>
      (ok idx = Inr False \<longrightarrow>
         product_ids (sess (browse_product idx g s)) = [] \<and>
         failures (trace (browse_product idx g s)) =
           [Failure ''index'' (''Index failed with '' @ str_int (status_code idx))] \<and>
         raised (browse_product idx g s) = None)"
    if e: "product_ids s = []"
  proof (cases idx rule: ok_cases)
    case (raises x)
    show ?thesis
      by (simp add: browse_product_empty_raises [OF e raises] e raises)
  next
    case failed
    show ?thesis
      by (simp add: browse_product_empty_failed [OF e failed] e failed)
  next
    case ok
    show ?thesis
      by (simp add: browse_product_empty_ok [OF e ok] ok del: findall.simps)
  qed
  have named: "\<exists>pid. pid \<noteq> [] \<and> r = product_request pid"
    if a: "Request r \<in> set (trace (browse_product idx g s)) \<and> r_name r = ''product''" for r
  proof (cases "product_ids s = []")
    case False
    with a show ?thesis
      by (auto simp: browse_product_known split: if_splits)
  next
    case True
    show ?thesis
    proof (cases idx rule: ok_cases)
      case (raises x)
      with True a show ?thesis
        by (auto simp: browse_product_empty_raises)
    next
      case failed
      with True a show ?thesis
        by (auto simp: browse_product_empty_failed)
    next
      case ok
      let ?ids = "findall (case resp_text idx of None \<Rightarrow> [] | Some t \<Rightarrow> t)"
      from a True ok have "?ids \<noteq> [] \<and> r = product_request (choice g ?ids)"
        by (auto simp: browse_product_empty_ok split: if_splits simp del: findall.simps)
      then show ?thesis
        using choice_findall_nonempty by blast
    qed
  qed
  from empty named show ?thesis by blast
qed

theorem browse_product_rediscovery_witness:
  "product_ids session_new = [] \<and> ok resp_page = Inr True \<and>
   requests (trace (browse_product resp_page 0 session_new)) =
     [Request (index_request True), Request (product_request ''ABC-1'')] \<and>
   product_ids (sess (browse_product resp_page 0 session_new)) = [''ABC-1''] \<and>
   failures (trace (browse_product resp_page 0 session_new)) = [] \<and>
   ok resp_503 = Inr False \<and>
   requests (trace (browse_product resp_503 0 session_new)) = [Request (index_request True)] \<and>
   failures (trace (browse_product resp_503 0 session_new)) =
     [Failure ''index'' ''Index failed with 503''] \<and>
   raised (browse_product resp_503 0 session_new) = None \<and>
   Request (product_request ''ABC-1'') \<in> set (trace (browse_product resp_page 0 session_new)) \<and>
   r_name (product_request ''ABC-1'') = ''product'' \<and>
   (\<exists>pid. pid \<noteq> [] \<and> product_request ''ABC-1'' = product_request pid)"
proof -
  have e: "product_ids session_new = []" by (simp add: session_new_def)
  have k: "ok resp_page = Inr True" by (simp add: resp_page_def)
  have n: "ok resp_503 = Inr False" by (simp add: resp_503_def)
  have d: "str_int (status_code resp_503) = ''503''"
    by (simp add: resp_503_def str_int_def digits.simps)
  have f: "findall (case resp_text resp_page of None \<Rightarrow> [] | Some t \<Rightarrow> t) = [''ABC-1'']"
    by (simp add: resp_page_def match_here_def is_id_char_def)
  have c: "choice 0 [''ABC-1''] = ''ABC-1''"
    by (simp add: choice_def randbelow_def)
  have b: "browse_product resp_page 0 session_new =
     \<lparr>sess = session_new\<lparr>product_ids := [''ABC-1'']\<rparr>,
      trace = [Request (index_request True), ProductsSet [''ABC-1''], Success ''index'',
               Request (product_request ''ABC-1'')],
      raised = None\<rparr>"
    unfolding browse_product_empty_ok [OF e k] f c by simp
  have m: "Request (product_request ''ABC-1'')
      \<in> set (trace (browse_product resp_page 0 session_new))"
    unfolding b by simp
  have nm: "r_name (product_request ''ABC-1'') = ''product''"
    by (simp add: product_request_def)
  note t = browse_product_rediscovery [where s = session_new and idx = resp_page and g = 0]
  note u = browse_product_rediscovery [where s = session_new and idx = resp_503 and g = 0]
  from t e k have t1: "requests (trace (browse_product resp_page 0 session_new)) =
        Request (index_request True) #
          (if product_ids (sess (browse_product resp_page 0 session_new)) = [] then []
           else [Request (product_request
                   (choice 0 (product_ids (sess (browse_product resp_page 0 session_new)))))])"
    and t2: "product_ids (sess (browse_product resp_page 0 session_new)) =
        findall (case resp_text resp_page of None \<Rightarrow> [] | Some t \<Rightarrow> t)"
    and t3: "failures (trace (browse_product resp_page 0 session_new)) = []"
    by blast+
  from u e n have u1: "requests (trace (browse_product resp_503 0 session_new)) =
        Request (index_request True) #
          (if product_ids (sess (browse_product resp_503 0 session_new)) = [] then []
           else [Request (product_request
                   (choice 0 (product_ids (sess (browse_product resp_503 0 session_new)))))])"
    and u2: "product_ids (sess (browse_product resp_503 0 session_new)) = []"
    and u3: "failures (trace (browse_product resp_503 0 session_new)) =
        [Failure ''index'' (''Index failed with '' @ str_int (status_code resp_503))]"
    and u4: "raised (browse_product resp_503 0 session_new) = None"
    by blast+
  from t m nm have t4: "\<exists>pid. pid \<noteq> [] \<and> product_request ''ABC-1'' = product_request pid"
    by blast
  have r1: "requests (trace (browse_product resp_page 0 session_new)) =
     [Request (index_request True), Request (product_request ''ABC-1'')]"
    unfolding t1 unfolding t2 f c by simp
  have r2: "requests (trace (browse_product resp_503 0 session_new)) = [Request (index_request True)]"
    unfolding u1 unfolding u2 by simp
  have u5: "failures (trace (browse_product resp_503 0 session_new)) =
      [Failure ''index'' ''Index failed with 503'']"
    unfolding u3 d by simp
  from t2 have t5: "product_ids (sess (browse_product resp_page 0 session_new)) = [''ABC-1'']"
    unfolding f .
  from e k n r1 r2 t5 t3 u5 u4 m nm t4 show ?thesis
    by blast
qed

subsection \<open>Quantities in the cart\<close>

lemma load_products_no_append: "CartAppend l \<notin> set (trace (load_products r s))"
  by (cases r rule: ok_cases)
    (simp_all add: load_products_ok load_products_failed load_products_raises
      del: findall.simps)

lemma choose_product_no_append: "CartAppend l \<notin> set (snd (snd (choose_product idx g s)))"
  by (cases "product_ids s = []")
    (simp_all add: choose_product_empty choose_product_known load_products_no_append)

lemma choose_product_cases:
  obtains (raises) e where "fst (choose_product idx g s) = Inl e"
  | (none) "fst (choose_product idx g s) = Inr []"
  | (some) pid where "fst (choose_product idx g s) = Inr pid" and "pid \<noteq> []"
proof (cases "fst (choose_product idx g s)")
  case (Inl e)
  then show ?thesis by (rule raises)
next
  case (Inr pid)
  then show ?thesis by (cases "pid = []") (auto intro: none some)
qed

lemma browse_product_sess: "sess (browse_product idx g s) = fst (snd (choose_product idx g s))"
  by (cases "choose_product idx g s" rule: prod_cases3)
    (auto simp: browse_product_def split: sum.splits)

lemma browse_product_cart [simp]: "cart_items (sess (browse_product idx g s)) = cart_items s"
  by (simp add: browse_product_sess)

lemma browse_product_no_append: "CartAppend l \<notin> set (trace (browse_product idx g s))"
  using choose_product_no_append [of l idx g s]
  by (cases "choose_product idx g s" rule: prod_cases3)
    (auto simp: browse_product_def split: sum.splits)

lemma step_cart:
  "set (cart_items (sess (step c s))) \<subseteq> set (cart_items s) \<union> {l. 1 \<le> snd l \<and> snd l \<le> 3}"
proof (cases "chosen c")
  case AddToCart
  show ?thesis
  proof (cases "index_resp c" "rnd_choice c" s rule: choose_product_cases)
    case (raises e)
    with AddToCart show ?thesis
      by (simp add: step_def add_to_cart_raises)
  next
    case none
    with AddToCart show ?thesis
      by (simp add: step_def add_to_cart_skipped)
  next
    case (some pid)
    with AddToCart randint_1_3_bounds [of "rnd_qty c"] show ?thesis
      by (simp add: step_def add_to_cart_selected)
  qed
next
  case Checkout
  then show ?thesis
    by (cases "main_resp c" rule: ok_cases) (auto simp: step_def checkout_def)
qed (simp_all add: step_def index_def set_currency_def view_cart_def)

lemma step_appends:
  assumes "CartAppend (p, q) \<in> set (trace (step c s))"
  shows "1 \<le> q \<and> q \<le> 3"
proof (cases "chosen c")
  case AddToCart
  show ?thesis
  proof (cases "index_resp c" "rnd_choice c" s rule: choose_product_cases)
    case (raises e)
    with AddToCart assms choose_product_no_append show ?thesis
      by (simp add: step_def add_to_cart_raises)
  next
    case none
    with AddToCart assms choose_product_no_append show ?thesis
      by (simp add: step_def add_to_cart_skipped)
  next
    case (some pid)
    with AddToCart assms choose_product_no_append randint_1_3_bounds [of "rnd_qty c"]
    show ?thesis
      by (auto simp: step_def add_to_cart_selected)
  qed
next
  case BrowseProduct
  with assms browse_product_no_append show ?thesis
    by (simp add: step_def)
next
  case Checkout
  with assms show ?thesis
    by (cases "main_resp c" rule: ok_cases) (auto simp: step_def checkout_def split: if_splits)
next
  case Index
  with assms show ?thesis by (simp add: step_def index_def)
next
  case SetCurrency
  with assms show ?thesis by (simp add: step_def set_currency_def)
next
  case ViewCart
  with assms show ?thesis by (simp add: step_def view_cart_def)
qed

lemma uncaught_no_append: "CartAppend l \<notin> set (uncaught r)"
  by (simp add: uncaught_def split: option.splits)

lemma run_cart:
  "set (cart_items (fst (run cs s))) \<subseteq> set (cart_items s) \<union> {l. 1 \<le> snd l \<and> snd l \<le> 3}"
proof (induction cs arbitrary: s)
  case Nil
  show ?case by simp
next
  case (Cons c cs)
  have "fst (run (c # cs) s) = fst (run cs (sess (step c s)))"
    by (simp add: case_prod_beta Let_def)
  with Cons [of "sess (step c s)"] step_cart [of c s] show ?case by auto
qed

lemma run_appends:
  "CartAppend (p, q) \<in> set (snd (run cs s)) \<Longrightarrow> 1 \<le> q \<and> q \<le> 3"
proof (induction cs arbitrary: s)
  case Nil
  then show ?case by simp
next
  case (Cons c cs)
  have "snd (run (c # cs) s) =
      trace (step c s) @ uncaught (step c s) @ snd (run cs (sess (step c s)))"
    by (simp add: case_prod_beta Let_def)
  with Cons.prems uncaught_no_append have "CartAppend (p, q) \<in> set (trace (step c s)) \<or>
      CartAppend (p, q) \<in> set (snd (run cs (sess (step c s))))"
    by simp
  then show ?case using step_appends Cons.IH by blast
qed

text \<open>
  C10. In every state a session reaches (\<open>on_start\<close>, then any cycles, any responses,
  any generator outputs) every line of the cart has a quantity from 1 to 3, and so has
  every line ever appended. The three quantities share the generator's outputs evenly:
  quantity \<open>q\<close> is drawn exactly when the output is \<open>q - 1\<close> modulo three.
\<close>

theorem cart_quantities:
  "(\<forall>l \<in> set (cart_items (fst (session_run start cs))). 1 \<le> snd l \<and> snd l \<le> 3) \<and>
   (\<forall>p q. CartAppend (p, q) \<in> set (snd (session_run start cs)) \<longrightarrow> 1 \<le> q \<and> q \<le> 3) \<and>
   (\<forall>q \<in> {1, 2, 3}. (randint 1 3 h = q) = (int (h mod 3) = q - 1))"
proof -
  have c0: "cart_items (sess (on_start start)) = []"
    by (simp add: on_start_def)
  have t0: "CartAppend l \<notin> set (trace (on_start start))" for l
    by (simp add: on_start_def load_products_no_append)
  have lines: "\<forall>l \<in> set (cart_items (fst (session_run start cs))). 1 \<le> snd l \<and> snd l \<le> 3"
  proof (cases "raised (on_start start)")
    case None
    then have "fst (session_run start cs) = fst (run cs (sess (on_start start)))"
      by (simp add: session_run_def case_prod_beta Let_def)
    with run_cart [of cs "sess (on_start start)"] c0 show ?thesis by auto
  next
    case (Some e)
    then have "fst (session_run start cs) = sess (on_start start)"
      by (simp add: session_run_def Let_def)
    with c0 show ?thesis by simp
  qed
  have appends: "1 \<le> q \<and> q \<le> 3"
    if a: "CartAppend (p, q) \<in> set (snd (session_run start cs))" for p q
  proof (cases "raised (on_start start)")
    case None
    then have "snd (session_run start cs) =
        trace (on_start start) @ snd (run cs (sess (on_start start)))"
      by (simp add: session_run_def case_prod_beta Let_def)
    with a t0 have "CartAppend (p, q) \<in> set (snd (run cs (sess (on_start start))))"
      by simp
    then show ?thesis by (rule run_appends)
  next
    case (Some e)
    then have "snd (session_run start cs) = trace (on_start start) @ [Raised e]"
      by (simp add: session_run_def Let_def)
    with a t0 show ?thesis by simp
  qed
  have draws: "\<forall>q \<in> {1, 2, 3}. (randint 1 3 h = q) = (int (h mod 3) = q - 1)"
    by (auto simp: randint_1_3)
  from lines appends draws show ?thesis by blast
qed

theorem cart_quantities_witness:
  "(''ABC-1'', 2) \<in> set (cart_items (fst (session_run resp_page [add_cycle 4]))) \<and>
   CartAppend (''ABC-1'', 2) \<in> set (snd (session_run resp_page [add_cycle 4])) \<and>
   1 \<le> snd (''ABC-1'', 2::int) \<and> snd (''ABC-1'', 2::int) \<le> 3 \<and>
   (2::int) \<in> {1, 2, 3} \<and> randint 1 3 4 = 2"
proof -
  have k: "ok resp_page = Inr True" by (simp add: resp_page_def)
  have f: "findall (case resp_text resp_page of None \<Rightarrow> [] | Some t \<Rightarrow> t) = [''ABC-1'']"
    by (simp add: resp_page_def match_here_def is_id_char_def)
  have st: "on_start resp_page =
      \<lparr>sess = \<lparr>product_ids = [''ABC-1''], cart_items = []\<rparr>,
       trace = [Request (index_request True), ProductsSet [''ABC-1''], Success ''index''],
       raised = None\<rparr>"
    unfolding on_start_def load_products_ok [OF k] f by simp
  have cp: "choose_product resp_503 0 \<lparr>product_ids = [''ABC-1''], cart_items = []\<rparr> =
      (Inr ''ABC-1'', \<lparr>product_ids = [''ABC-1''], cart_items = []\<rparr>, [])"
    by (rule choose_product_single) simp
  have q: "randint 1 3 4 = 2"
    by (simp add: randint_def randbelow_def)
  have ad: "step (add_cycle 4) \<lparr>product_ids = [''ABC-1''], cart_items = []\<rparr> =
      \<lparr>sess = \<lparr>product_ids = [''ABC-1''], cart_items = [(''ABC-1'', 2)]\<rparr>,
       trace = [CartAppend (''ABC-1'', 2), Request (cart_add_request ''ABC-1'' 2)],
       raised = None\<rparr>"
    unfolding step_def add_cycle_def by (simp add: add_to_cart_def cp q)
  have sr: "session_run resp_page [add_cycle 4] =
      (\<lparr>product_ids = [''ABC-1''], cart_items = [(''ABC-1'', 2)]\<rparr>,
       [Request (index_request True), ProductsSet [''ABC-1''], Success ''index'',
        CartAppend (''ABC-1'', 2), Request (cart_add_request ''ABC-1'' 2)])"
    unfolding session_run_def st by (simp add: ad)
  have m1: "(''ABC-1'', 2) \<in> set (cart_items (fst (session_run resp_page [add_cycle 4])))"
    unfolding sr by simp
  have m2: "CartAppend (''ABC-1'', 2) \<in> set (snd (session_run resp_page [add_cycle 4]))"
    unfolding sr by simp
  have m3: "(2::int) \<in> {1, 2, 3}" by simp
  note t = cart_quantities [where start = resp_page and cs = "[add_cycle 4]" and h = 4]
  from t m1 have "1 \<le> snd (''ABC-1'', 2::int) \<and> snd (''ABC-1'', 2::int) \<le> 3" by blast
  moreover from t m3 have "(randint 1 3 4 = 2) = (int (4 mod 3) = 2 - 1)" by blast
  then have "randint 1 3 4 = 2" by simp
  ultimately show ?thesis using m1 m2 m3 by blast
qed

subsection \<open>The task mix\<close>

lemma total_weight_simps [simp]:
  "total_weight [] = 0"
  "total_weight (d # ds) = snd d + total_weight ds"
  "total_weight (xs @ ys) = total_weight xs + total_weight ys"
  by (simp_all add: total_weight_def)

lemma total_weight_nonneg: "\<forall>d \<in> set ds. 0 \<le> snd d \<Longrightarrow> 0 \<le> total_weight ds"
  by (induction ds) auto

lemma total_weight_nonpos: "\<forall>d \<in> set ds. snd d \<le> 0 \<Longrightarrow> total_weight ds \<le> 0"
  by (induction ds) auto

lemma select_action_in: "select_action ds r = Some b \<Longrightarrow> b \<in> fst ` set ds"
  by (induction ds r rule: select_action.induct) (auto split: if_splits)

lemma select_action_range:
  assumes "a \<notin> fst ` set pre" and "a \<notin> fst ` set post"
    and "\<forall>d \<in> set pre. 0 \<le> snd d" and "0 \<le> r"
  shows "(select_action (pre @ (a, w) # post) r = Some a) =
           (total_weight pre \<le> r \<and> r < total_weight pre + w)"
  using assms
proof (induction pre arbitrary: r)
  case Nil
  then show ?case
    using select_action_in [of post "r - w" a] by auto
next
  case (Cons d pre)
  obtain b v where d: "d = (b, v)" by (cases d)
  with Cons.prems have ba: "b \<noteq> a" and v: "0 \<le> v" by auto
  from Cons.prems have tp: "0 \<le> total_weight pre"
    by (intro total_weight_nonneg) simp
  show ?case
  proof (cases "r < v")
    case True
    with d ba tp show ?thesis by simp
  next
    case False
    then have "0 \<le> r - v" by simp
    with Cons.IH [of "r - v"] Cons.prems
    have "(select_action (pre @ (a, w) # post) (r - v) = Some a) =
          (total_weight pre \<le> r - v \<and> r - v < total_weight pre + w)"
      by simp
    with False d show ?thesis by auto
  qed
qed

lemma select_action_total:
  "0 \<le> r \<Longrightarrow> r < total_weight ds \<Longrightarrow> select_action ds r \<noteq> None"
proof (induction ds r rule: select_action.induct)
  case (1 r)
  then show ?case by simp
next
  case (2 a w ds r)
  then show ?case by (cases "r < w") auto
qed

lemma select_action_count:
  assumes "distinct (map fst (pre @ (a, w) # post))"
    and "\<forall>d \<in> set (pre @ (a, w) # post). 1 \<le> snd d"
  shows "card {r. 0 \<le> r \<and> r < total_weight (pre @ (a, w) # post) \<and>
                  select_action (pre @ (a, w) # post) r = Some a} = nat w"
proof -
  have na: "a \<notin> fst ` set pre" "a \<notin> fst ` set post"
    using assms(1) by auto
  have nn: "\<forall>d \<in> set pre. 0 \<le> snd d" "\<forall>d \<in> set post. 0 \<le> snd d"
    using assms(2) by (auto simp: ball_Un intro: order_trans [of 0 1])
  have tp: "0 \<le> total_weight pre" "0 \<le> total_weight post"
    using nn by (simp_all add: total_weight_nonneg)
  have "{r. 0 \<le> r \<and> r < total_weight (pre @ (a, w) # post) \<and>
            select_action (pre @ (a, w) # post) r = Some a} =
        {total_weight pre ..< total_weight pre + w}"
    using select_action_range [OF na nn(1)] tp by auto
  then show ?thesis by simp
qed

text \<open>
  C5. In a registry with distinct names and weights of at least one, a draw \<open>r\<close> from
  \<open>[0, total_weight)\<close> always selects an action, and it selects the action \<open>a\<close> of weight
  \<open>w\<close> exactly when \<open>r\<close> lies in the cumulative range of \<open>a\<close>; so \<open>w\<close> of the
  \<open>total_weight\<close> equally likely draws select \<open>a\<close>. The weights of the source are
  index 1, setCurrency 2, browseProduct 10, addToCart 2, viewCart 3, checkout 1; they sum
  to 19, and 10 of the 19 draws select browseProduct.
\<close>

theorem weighted_selection:
  "(distinct (map fst (pre @ (a, w) # post)) \<and> (\<forall>d \<in> set (pre @ (a, w) # post). 1 \<le> snd d) \<longrightarrow>
      (\<forall>r. 0 \<le> r \<and> r < total_weight (pre @ (a, w) # post) \<longrightarrow>
         select_action (pre @ (a, w) # post) r \<noteq> None \<and>
         (select_action (pre @ (a, w) # post) r = Some a) =
           (total_weight pre \<le> r \<and> r < total_weight pre + w)) \<and>
      card {r. 0 \<le> r \<and> r < total_weight (pre @ (a, w) # post) \<and>
               select_action (pre @ (a, w) # post) r = Some a} = nat w) \<and>
   task_weights =
     [(Index, 1), (SetCurrency, 2), (BrowseProduct, 10), (AddToCart, 2), (ViewCart, 3),
      (Checkout, 1)] \<and>
   total_weight task_weights = 19 \<and>
   card {r. 0 \<le> r \<and> r < total_weight task_weights \<and>
            select_action task_weights r = Some BrowseProduct} = 10"
proof -
  have general: "(\<forall>r. 0 \<le> r \<and> r < total_weight (pre @ (a, w) # post) \<longrightarrow>
         select_action (pre @ (a, w) # post) r \<noteq> None \<and>
         (select_action (pre @ (a, w) # post) r = Some a) =
           (total_weight pre \<le> r \<and> r < total_weight pre + w)) \<and>
      card {r. 0 \<le> r \<and> r < total_weight (pre @ (a, w) # post) \<and>
               select_action (pre @ (a, w) # post) r = Some a} = nat w"
    if d: "distinct (map fst (pre @ (a, w) # post))"
      and p: "\<forall>d \<in> set (pre @ (a, w) # post). 1 \<le> snd d"
  proof -
    have na: "a \<notin> fst ` set pre" "a \<notin> fst ` set post"
      using d by auto
    have nn: "\<forall>d \<in> set pre. 0 \<le> snd d"
      using p by (auto simp: ball_Un intro: order_trans [of 0 1])
    show ?thesis
      using select_action_range [OF na nn] select_action_total select_action_count [OF d p]
      by blast
  qed
  have split: "task_weights =
      [(Index, 1), (SetCurrency, 2)] @ (BrowseProduct, 10) # [(AddToCart, 2), (ViewCart, 3),
      (Checkout, 1)]"
    by (simp add: task_weights_def)
  have "card {r. 0 \<le> r \<and> r < total_weight task_weights \<and>
            select_action task_weights r = Some BrowseProduct} = nat 10"
    unfolding split by (rule select_action_count) simp_all
  moreover have "total_weight task_weights = 19"
    by (simp add: task_weights_def)
  ultimately show ?thesis
    using general by (simp add: task_weights_def)
qed

theorem weighted_selection_witness:
  "distinct (map fst task_weights) \<and> list_all (\<lambda>d. 1 \<le> snd d) task_weights \<and>
   (0::int) \<le> 7 \<and> 7 < total_weight task_weights \<and>
   select_action task_weights 7 = Some BrowseProduct \<and>
   card {r. 0 \<le> r \<and> r < total_weight task_weights \<and>
            select_action task_weights r = Some BrowseProduct} = 10"
proof -
  have split: "task_weights =
      [(Index, 1), (SetCurrency, 2)] @ (BrowseProduct, 10) # [(AddToCart, 2), (ViewCart, 3),
      (Checkout, 1)]"
    by (simp add: task_weights_def)
  have d: "distinct (map fst task_weights)" by (simp add: task_weights_def)
  have p: "\<forall>d \<in> set task_weights. 1 \<le> snd d" by (simp add: task_weights_def)
  have t: "total_weight task_weights = 19" by (simp add: task_weights_def)
  have tp: "total_weight [(Index, 1), (SetCurrency, 2)] = 3" by simp
  note w = weighted_selection [where pre = "[(Index, 1), (SetCurrency, 2)]"
      and a = BrowseProduct and w = 10
      and post = "[(AddToCart, 2), (ViewCart, 3), (Checkout, 1)]", folded split]
  from w d p have r: "\<forall>r. 0 \<le> r \<and> r < total_weight task_weights \<longrightarrow>
      (select_action task_weights r = Some BrowseProduct) =
        (total_weight [(Index, 1), (SetCurrency, 2)] \<le> r \<and>
         r < total_weight [(Index, 1), (SetCurrency, 2)] + 10)"
    and c: "card {r. 0 \<le> r \<and> r < total_weight task_weights \<and>
            select_action task_weights r = Some BrowseProduct} = 10"
    by blast+
  from r t have "(select_action task_weights 7 = Some BrowseProduct) =
      (total_weight [(Index, 1), (SetCurrency, 2)] \<le> 7 \<and>
       7 < total_weight [(Index, 1), (SetCurrency, 2)] + 10)"
    by simp
  then have "select_action task_weights 7 = Some BrowseProduct"
    unfolding tp by simp
  with d p c t show ?thesis by (simp add: list_all_iff)
qed

text \<open>
  C6. Building the registry from no descriptors, or from descriptors whose weights are
  all at most zero, fails with ConfigurationError, and the run ends with that error
  before any draw is used. The weights of the source pass the validation.
\<close>

theorem registry_validation:
  "(ds = [] \<or> (\<forall>d \<in> set ds. snd d \<le> 0) \<longrightarrow>
      build_registry ds = Inl ConfigurationError \<and>
      start_run ds draws = Inl ConfigurationError) \<and>
   build_registry task_weights = Inr task_weights"
proof -
  have "total_weight ds \<le> 0" if "ds = [] \<or> (\<forall>d \<in> set ds. snd d \<le> 0)"
    using that total_weight_nonpos [of ds] by auto
  then have "build_registry ds = Inl ConfigurationError \<and>
      start_run ds draws = Inl ConfigurationError"
    if "ds = [] \<or> (\<forall>d \<in> set ds. snd d \<le> 0)"
    using that by (simp add: build_registry_def start_run_def)
  moreover have "build_registry task_weights = Inr task_weights"
    by (simp add: build_registry_def task_weights_def)
  ultimately show ?thesis by blast
qed

theorem registry_validation_witness:
  "list_all (\<lambda>d. snd d \<le> (0::int)) [(Index, 0), (Checkout, - 1)] \<and>
   build_registry [(Index, 0), (Checkout, - 1)] = Inl ConfigurationError \<and>
   start_run [(Index, 0), (Checkout, - 1)] [0, 1, 2] = Inl ConfigurationError \<and>
   build_registry ([] :: (action \<times> int) list) = Inl ConfigurationError \<and>
   start_run ([] :: (action \<times> int) list) [0, 1, 2] = Inl ConfigurationError"
proof -
  have h: "\<forall>d \<in> set [(Index, 0), (Checkout, - 1)]. snd d \<le> (0::int)" by simp
  show ?thesis
    using registry_validation [where ds = "[(Index, 0), (Checkout, - 1)]" and draws = "[0, 1, 2]"]
      registry_validation [where ds = "[] :: (action \<times> int) list" and draws = "[0, 1, 2]"] h
    unfolding list_all_iff by blast
qed

subsection \<open>Think time\<close>

lemma wait_time_eq: "wait_time u = 1 + 2 * u"
  by (simp add: wait_time_def between_def)

text \<open>
  C9. With the bounds of the source, 1.0 and 3.0, every delay lies in the closed interval
  from 1 to 3 and every value of the interval is the delay of some draw. The delay is
  uniform when the draw is: the draws that give a delay between \<open>a\<close> and \<open>b\<close> form an
  interval whose length is \<open>b - a\<close> over the width of the interval. Each cycle has a
  draw of its own, and two cycles have the same delay only if their draws are equal, so
  the delays of a session are not constant unless its draws are.
\<close>

theorem think_time_interval:
  "(0 \<le> u \<and> u \<le> 1 \<longrightarrow> 1 \<le> wait_time u \<and> wait_time u \<le> 3) \<and>
   (1 \<le> d \<and> d \<le> 3 \<longrightarrow> (\<exists>u. 0 \<le> u \<and> u \<le> 1 \<and> wait_time u = d)) \<and>
   (1 \<le> a \<and> a \<le> b \<and> b \<le> 3 \<longrightarrow>
      {u. 0 \<le> u \<and> u \<le> 1 \<and> a \<le> wait_time u \<and> wait_time u \<le> b} =
        {(a - 1) / (3 - 1) .. (b - 1) / (3 - 1)}) \<and>
   ((wait_time u = wait_time v) = (u = v)) \<and>
   length (think_times us) = length us \<and>
   (\<forall>i < length us. think_times us ! i = wait_time (us ! i))"
proof -
  have "\<exists>u. 0 \<le> u \<and> u \<le> 1 \<and> wait_time u = d" if "1 \<le> d \<and> d \<le> 3"
    using that by (intro exI [of _ "(d - 1) / 2"]) (simp add: wait_time_eq field_simps)
  moreover have "{u. 0 \<le> u \<and> u \<le> 1 \<and> a \<le> wait_time u \<and> wait_time u \<le> b} =
        {(a - 1) / (3 - 1) .. (b - 1) / (3 - 1)}" if "1 \<le> a \<and> a \<le> b \<and> b \<le> 3"
    using that by (auto simp: wait_time_eq field_simps)
  ultimately show ?thesis
    by (simp add: wait_time_eq think_times_def)
qed

theorem think_time_interval_witness:
  "(0::real) \<le> 1 / 4 \<and> (1::real) / 4 \<le> 1 \<and> wait_time (1 / 4) = 3 / 2 \<and>
   1 \<le> wait_time (1 / 4) \<and> wait_time (1 / 4) \<le> 3 \<and>
   (\<exists>u. 0 \<le> u \<and> u \<le> 1 \<and> wait_time u = 3) \<and>
   {u. 0 \<le> u \<and> u \<le> 1 \<and> 1 \<le> wait_time u \<and> wait_time u \<le> 2} = {0 .. 1 / 2} \<and>
   think_times [0, 1 / 4, 1] ! 1 = 3 / 2 \<and> think_times [0, 1 / 4, 1] = [1, 3 / 2, 3]"
proof -
  note t = think_time_interval [where u = "1 / 4" and d = 3 and a = 1 and b = 2
      and us = "[0, 1 / 4, 1]" and v = 0]
  have v: "wait_time (1 / 4) = 3 / 2" "wait_time 0 = 1" "wait_time 1 = 3"
    by (simp_all add: wait_time_eq)
  from t have "1 \<le> wait_time (1 / 4) \<and> wait_time (1 / 4) \<le> 3" by simp
  moreover from t have "\<exists>u. 0 \<le> u \<and> u \<le> 1 \<and> wait_time u = 3" by simp
  moreover from t have "{u. 0 \<le> u \<and> u \<le> 1 \<and> 1 \<le> wait_time u \<and> wait_time u \<le> 2} = {0 .. 1 / 2}"
    by simp
  moreover from t have "think_times [0, 1 / 4, 1] ! 1 = wait_time ([0, 1 / 4, 1] ! 1)"
    by simp
  ultimately show ?thesis
    by (simp add: v think_times_def)
qed

end
